theory Spec2Isabelle
  imports Main
begin

section \<open>The DNS data that resolve.py handles\<close>

text \<open>
  resolve.py is written against dnspython. A domain name (\<^verbatim>\<open>dns.name.Name\<close>) is kept
  here by its absolute text form, so \<^verbatim>\<open>str\<close> of a name is the name itself. A record
  (\<^verbatim>\<open>dns.rdata.Rdata\<close>) carries its type code and the fields of its type; a resource
  record set (\<^verbatim>\<open>dns.rrset.RRset\<close>) has an owner name, a type code and its records,
  read by iteration and by index; a message has the three sections the program reads.
\<close>

type_synonym dname = string

datatype rdata =
    A_rdata string
  | AAAA_rdata string
  | CNAME_rdata dname
  | NS_rdata dname
  | MX_rdata nat dname
  | Other_rdata nat string

abbreviation (input) rdatatype_A :: nat where "rdatatype_A \<equiv> 1"
abbreviation (input) rdatatype_NS :: nat where "rdatatype_NS \<equiv> 2"
abbreviation (input) rdatatype_CNAME :: nat where "rdatatype_CNAME \<equiv> 5"
abbreviation (input) rdatatype_SOA :: nat where "rdatatype_SOA \<equiv> 6"
abbreviation (input) rdatatype_MX :: nat where "rdatatype_MX \<equiv> 15"
abbreviation (input) rdatatype_AAAA :: nat where "rdatatype_AAAA \<equiv> 28"

text \<open>\<^verbatim>\<open>rdata.rdtype\<close>: the wire type code of one record.\<close>

fun rdata_rdtype :: "rdata \<Rightarrow> nat" where
  "rdata_rdtype (A_rdata a) = rdatatype_A"
| "rdata_rdtype (AAAA_rdata a) = rdatatype_AAAA"
| "rdata_rdtype (CNAME_rdata t) = rdatatype_CNAME"
| "rdata_rdtype (NS_rdata t) = rdatatype_NS"
| "rdata_rdtype (MX_rdata p e) = rdatatype_MX"
| "rdata_rdtype (Other_rdata c s) = c"

fun str_nat :: "nat \<Rightarrow> string" where
  "str_nat n =
     (if n < 10 then [char_of (48 + n)]
      else str_nat (n div 10) @ [char_of (48 + n mod 10)])"

declare str_nat.simps [simp del]

text \<open>\<^verbatim>\<open>str(rdata)\<close>: the presentation form of one record.\<close>

fun rdata_str :: "rdata \<Rightarrow> string" where
  "rdata_str (A_rdata a) = a"
| "rdata_str (AAAA_rdata a) = a"
| "rdata_str (CNAME_rdata t) = t"
| "rdata_str (NS_rdata t) = t"
| "rdata_str (MX_rdata p e) = str_nat p @ '' '' @ e"
| "rdata_str (Other_rdata c s) = s"

record rrset =
  name :: dname
  rdtype :: nat
  items :: "rdata list"

record message =
  answer :: "rrset list"
  authority :: "rrset list"
  additional :: "rrset list"

text \<open>
  Every exception of the program is a value. \<^verbatim>\<open>dns.query.udp\<close> and
  \<^verbatim>\<open>dns.name.from_text\<close> belong to dnspython and may raise; the program itself can
  raise on \<^verbatim>\<open>rrset[0]\<close> of an empty set, on a field a record does not have, on an
  attribute of \<^verbatim>\<open>None\<close>, and on a local variable read before it is bound.
\<close>

datatype error =
    Timeout
  | NetworkError string
  | BadName string
  | IndexError
  | AttributeError
  | UnboundLocalError

text \<open>
  One query is the name, the type code and the server address handed to
  \<^verbatim>\<open>dns.query.udp\<close> (the timeout is the constant 3). The call raises, or returns
  \<^verbatim>\<open>None\<close> or a message; what it does may depend on every query sent before.
\<close>

type_synonym query = "dname \<times> nat \<times> string"

datatype reply = Raises error | Returns "message option"

record env =
  udp :: "query list \<Rightarrow> query \<Rightarrow> reply"
  from_text :: "string \<Rightarrow> error + dname"

text \<open>
  A run returns a value or raises, and leaves the list of the queries sent so far. A run
  that needs more fuel than it was given has no outcome (\<open>None\<close>).
\<close>

type_synonym 'a outcome = "((error + 'a) \<times> query list) option"

type_synonym lookup_fn = "dname \<Rightarrow> nat \<Rightarrow> query list \<Rightarrow> (message option) outcome"

section \<open>lookup\<close>

definition ROOT_SERVERS :: "string list" where
  "ROOT_SERVERS =
     [''198.41.0.4'', ''199.9.14.201'', ''192.33.4.12'', ''199.7.91.13'',
      ''192.203.230.10'', ''192.5.5.241'', ''192.112.36.4'', ''198.97.190.53'',
      ''192.36.148.17'', ''192.58.128.30'', ''193.0.14.129'', ''199.7.83.42'',
      ''202.12.27.33'']"

text \<open>\<^verbatim>\<open>rrset[0]\<close>: IndexError on an empty set.\<close>

definition first :: "rrset \<Rightarrow> error + rdata" where
  "first rs = (case items rs of [] \<Rightarrow> Inl IndexError | d # _ \<Rightarrow> Inr d)"

text \<open>\<^verbatim>\<open>answer.target\<close>: only alias and nameserver records have the field.\<close>

fun target :: "rdata \<Rightarrow> error + dname" where
  "target (CNAME_rdata t) = Inr t"
| "target (NS_rdata t) = Inr t"
| "target d = Inl AttributeError"

text \<open>
  Lines 105 to 110, the inner loop over the records of one answer set: every alias
  record starts \<^verbatim>\<open>lookup(cname_target, qtype)\<close> and binds \<^verbatim>\<open>cname_response\<close> to
  what it returns. \<open>rec\<close> is the recursive \<^verbatim>\<open>lookup\<close>.
\<close>

fun chase_records ::
  "lookup_fn \<Rightarrow> nat \<Rightarrow> message option \<Rightarrow> query list \<Rightarrow> rdata list \<Rightarrow> (message option) outcome"
where
  "chase_records rec qtype cname_response tr [] = Some (Inr cname_response, tr)"
| "chase_records rec qtype cname_response tr (d # ds) =
     (if rdata_rdtype d = rdatatype_CNAME then
        (case target d of
           Inl e \<Rightarrow> Some (Inl e, tr)
         | Inr cname_target \<Rightarrow>
             (case rec cname_target qtype tr of
                None \<Rightarrow> None
              | Some (Inl e, tr') \<Rightarrow> Some (Inl e, tr')
              | Some (Inr r, tr') \<Rightarrow> chase_records rec qtype r tr' ds))
      else chase_records rec qtype cname_response tr ds)"

text \<open>Lines 105 to 110, the outer loop over the answer section.\<close>

fun chase ::
  "lookup_fn \<Rightarrow> nat \<Rightarrow> message option \<Rightarrow> query list \<Rightarrow> rrset list \<Rightarrow> (message option) outcome"
where
  "chase rec qtype cname_response tr [] = Some (Inr cname_response, tr)"
| "chase rec qtype cname_response tr (a # others) =
     (case chase_records rec qtype cname_response tr (items a) of
        None \<Rightarrow> None
      | Some (Inl e, tr') \<Rightarrow> Some (Inl e, tr')
      | Some (Inr r, tr') \<Rightarrow> chase rec qtype r tr' others)"

text \<open>
  Lines 112 to 116: \<^verbatim>\<open>response.answer.extend(cname_response.answer)\<close> when
  \<^verbatim>\<open>cname_response\<close> is a message.
\<close>

definition combine :: "message \<Rightarrow> message option \<Rightarrow> message" where
  "combine response cname_response =
     (case cname_response of
        None \<Rightarrow> response
      | Some c \<Rightarrow> response\<lparr>answer := answer response @ answer c\<rparr>)"

text \<open>Lines 120 to 122: the loop over the additional section, appending to \<^verbatim>\<open>next_servers\<close>.\<close>

fun collect_additional :: "string list \<Rightarrow> rrset list \<Rightarrow> error + string list" where
  "collect_additional next_servers [] = Inr next_servers"
| "collect_additional next_servers (record # others) =
     (case first record of
        Inl e \<Rightarrow> Inl e
      | Inr d \<Rightarrow>
          collect_additional
            (if rdata_rdtype d = rdatatype_A then next_servers @ [rdata_str d] else next_servers)
            others)"

text \<open>
  Lines 133 to 135: the loop over the answer section of a nameserver's own lookup,
  appending to \<^verbatim>\<open>servers_to_query\<close>. The type tested is the set's, the record read is
  the set's first.
\<close>

fun append_addresses :: "string list \<Rightarrow> rrset list \<Rightarrow> error + string list" where
  "append_addresses servers_to_query [] = Inr servers_to_query"
| "append_addresses servers_to_query (a # others) =
     (if rdtype a = rdatatype_A then
        (case first a of
           Inl e \<Rightarrow> Inl e
         | Inr d \<Rightarrow> append_addresses (servers_to_query @ [rdata_str d]) others)
      else append_addresses servers_to_query others)"

text \<open>Lines 126 to 135: the loop over the authority section.\<close>

fun resolve_authorities ::
  "lookup_fn \<Rightarrow> env \<Rightarrow> string list \<Rightarrow> query list \<Rightarrow> rrset list \<Rightarrow> (string list) outcome"
where
  "resolve_authorities rec E servers_to_query tr [] = Some (Inr servers_to_query, tr)"
| "resolve_authorities rec E servers_to_query tr (auth # others) =
     (case first auth of
        Inl e \<Rightarrow> Some (Inl e, tr)
      | Inr d \<Rightarrow>
          if rdata_rdtype d \<noteq> rdatatype_SOA then
            (case from_text E (rdata_str d) of
               Inl e \<Rightarrow> Some (Inl e, tr)
             | Inr next_target_name \<Rightarrow>
                 (case rec next_target_name rdatatype_A tr of
                    None \<Rightarrow> None
                  | Some (Inl e, tr') \<Rightarrow> Some (Inl e, tr')
                  | Some (Inr None, tr') \<Rightarrow> resolve_authorities rec E servers_to_query tr' others
                  | Some (Inr (Some next_response), tr') \<Rightarrow>
                      (case append_addresses servers_to_query (answer next_response) of
                         Inl e \<Rightarrow> Some (Inl e, tr')
                       | Inr servers' \<Rightarrow> resolve_authorities rec E servers' tr' others)))
          else resolve_authorities rec E servers_to_query tr others)"

text \<open>
  The variable \<^verbatim>\<open>response\<close> of \<^verbatim>\<open>lookup\<close>: unbound before the first query, then
  whatever the last \<^verbatim>\<open>dns.query.udp\<close> returned.
\<close>

datatype response_var = Unbound | Bound "message option"

text \<open>Line 140, \<^verbatim>\<open>return response\<close>.\<close>

fun return_response :: "response_var \<Rightarrow> error + message option" where
  "return_response Unbound = Inl UnboundLocalError"
| "return_response (Bound r) = Inr r"

text \<open>
  Lines 92 to 140, the while loop, one unit of fuel for each pass. The loop of line 95
  runs its body once, with \<^verbatim>\<open>s = server\<close>.
\<close>

fun lookup_loop ::
  "nat \<Rightarrow> lookup_fn \<Rightarrow> env \<Rightarrow> dname \<Rightarrow> nat \<Rightarrow> string list \<Rightarrow> response_var \<Rightarrow> query list
     \<Rightarrow> (message option) outcome"
where
  "lookup_loop 0 rec E target_name qtype servers_to_query response tr = None"
| "lookup_loop (Suc k) rec E target_name qtype [] response tr =
     Some (return_response response, tr)"
| "lookup_loop (Suc k) rec E target_name qtype (server # rest) response tr =
     (case udp E tr (target_name, qtype, server) of
        Raises e \<Rightarrow> Some (Inl e, tr @ [(target_name, qtype, server)])
      | Returns None \<Rightarrow>
          lookup_loop k rec E target_name qtype rest (Bound None)
            (tr @ [(target_name, qtype, server)])
      | Returns (Some r) \<Rightarrow>
          if answer r \<noteq> [] then
            (case chase rec qtype None (tr @ [(target_name, qtype, server)]) (answer r) of
               None \<Rightarrow> None
             | Some (Inl e, tr') \<Rightarrow> Some (Inl e, tr')
             | Some (Inr cname_response, tr') \<Rightarrow> Some (Inr (Some (combine r cname_response)), tr'))
          else
            (case (if additional r \<noteq> [] then collect_additional [] (additional r) else Inr []) of
               Inl e \<Rightarrow> Some (Inl e, tr @ [(target_name, qtype, server)])
             | Inr next_servers \<Rightarrow>
                 if next_servers = [] then
                   (case resolve_authorities rec E rest (tr @ [(target_name, qtype, server)])
                           (authority r) of
                      None \<Rightarrow> None
                    | Some (Inl e, tr') \<Rightarrow> Some (Inl e, tr')
                    | Some (Inr servers', tr') \<Rightarrow>
                        lookup_loop k rec E target_name qtype servers' (Bound (Some r)) tr')
                 else
                   lookup_loop k rec E target_name qtype next_servers (Bound (Some r))
                     (tr @ [(target_name, qtype, server)])))"

text \<open>
  \<^verbatim>\<open>lookup\<close>: the candidate list starts as the root servers. The fuel bounds both the
  depth of the recursion and the passes of each loop; with no fuel left the run has no
  outcome.
\<close>

fun lookup :: "nat \<Rightarrow> env \<Rightarrow> lookup_fn" where
  "lookup 0 E = (\<lambda>target_name qtype tr. None)"
| "lookup (Suc n) E =
     (\<lambda>target_name qtype tr.
        lookup_loop (Suc n) (lookup n E) E target_name qtype ROOT_SERVERS Unbound tr)"

section \<open>collect\_results\<close>

text \<open>
  The values the result dictionaries hold: strings, integers, names and whole records.
  A dictionary is kept as the list of its keys and values in insertion order.
\<close>

datatype pyval = PyStr string | PyInt nat | PyName dname | PyRdata rdata

type_synonym entry = "(string \<times> pyval) list"

text \<open>\<^verbatim>\<open>answer.preference\<close> and \<^verbatim>\<open>answer.exchange\<close>: fields of a mail-exchange record.\<close>

fun preference :: "rdata \<Rightarrow> error + nat" where
  "preference (MX_rdata p e) = Inr p"
| "preference d = Inl AttributeError"

fun exchange :: "rdata \<Rightarrow> error + dname" where
  "exchange (MX_rdata p e) = Inr e"
| "exchange d = Inl AttributeError"

text \<open>Lines 45 to 47: every record of every answer set becomes an entry.\<close>

definition cname_entries :: "string \<Rightarrow> rrset list \<Rightarrow> entry list" where
  "cname_entries alias answers_list =
     concat (map (\<lambda>answers.
        map (\<lambda>answer. [(''name'', PyRdata answer), (''alias'', PyStr alias)]) (items answers))
      answers_list)"

text \<open>Lines 51 to 55 and 59 to 63: the records whose type code is the one given.\<close>

definition address_entries :: "nat \<Rightarrow> rrset list \<Rightarrow> entry list" where
  "address_entries code answers_list =
     concat (map (\<lambda>answers.
        map (\<lambda>answer. [(''name'', PyName (name answers)), (''address'', PyStr (rdata_str answer))])
          (filter (\<lambda>answer. rdata_rdtype answer = code) (items answers)))
      answers_list)"

text \<open>Lines 69 to 73, the records of one answer set.\<close>

fun mx_records :: "dname \<Rightarrow> entry list \<Rightarrow> rdata list \<Rightarrow> error + entry list" where
  "mx_records mx_name mxrecords [] = Inr mxrecords"
| "mx_records mx_name mxrecords (rd # others) =
     (if rdata_rdtype rd = rdatatype_MX then
        (case preference rd of
           Inl e \<Rightarrow> Inl e
         | Inr p \<Rightarrow>
             (case exchange rd of
                Inl e \<Rightarrow> Inl e
              | Inr x \<Rightarrow>
                  mx_records mx_name
                    (mxrecords @ [[(''name'', PyName mx_name), (''preference'', PyInt p),
                                   (''exchange'', PyStr x)]])
                    others))
      else mx_records mx_name mxrecords others)"

text \<open>Lines 67 to 73, the answer sets.\<close>

fun mx_entries :: "entry list \<Rightarrow> rrset list \<Rightarrow> error + entry list" where
  "mx_entries mxrecords [] = Inr mxrecords"
| "mx_entries mxrecords (answers # others) =
     (case mx_records (name answers) mxrecords (items answers) of
        Inl e \<Rightarrow> Inl e
      | Inr mxrecords' \<Rightarrow> mx_entries mxrecords' others)"

text \<open>
  \<^verbatim>\<open>response = lookup(target_name, qtype)\<close> followed by \<^verbatim>\<open>response.answer\<close>, which
  raises AttributeError when \<^verbatim>\<open>lookup\<close> returned \<^verbatim>\<open>None\<close>.
\<close>

definition lookup_answer :: "nat \<Rightarrow> env \<Rightarrow> dname \<Rightarrow> nat \<Rightarrow> query list \<Rightarrow> (rrset list) outcome" where
  "lookup_answer n E target_name qtype tr =
     (case lookup n E target_name qtype tr of
        None \<Rightarrow> None
      | Some (Inl e, tr') \<Rightarrow> Some (Inl e, tr')
      | Some (Inr None, tr') \<Rightarrow> Some (Inl AttributeError, tr')
      | Some (Inr (Some response), tr') \<Rightarrow> Some (Inr (answer response), tr'))"

definition collect_results ::
  "nat \<Rightarrow> env \<Rightarrow> string \<Rightarrow> query list \<Rightarrow> ((string \<times> entry list) list) outcome"
where
  "collect_results n E nm tr =
     (case from_text E nm of
        Inl e \<Rightarrow> Some (Inl e, tr)
      | Inr target_name \<Rightarrow>
     (case lookup_answer n E target_name rdatatype_CNAME tr of
        None \<Rightarrow> None
      | Some (Inl e, tr1) \<Rightarrow> Some (Inl e, tr1)
      | Some (Inr cname_answer, tr1) \<Rightarrow>
     (case lookup_answer n E target_name rdatatype_A tr1 of
        None \<Rightarrow> None
      | Some (Inl e, tr2) \<Rightarrow> Some (Inl e, tr2)
      | Some (Inr a_answer, tr2) \<Rightarrow>
     (case lookup_answer n E target_name rdatatype_AAAA tr2 of
        None \<Rightarrow> None
      | Some (Inl e, tr3) \<Rightarrow> Some (Inl e, tr3)
      | Some (Inr aaaa_answer, tr3) \<Rightarrow>
     (case lookup_answer n E target_name rdatatype_MX tr3 of
        None \<Rightarrow> None
      | Some (Inl e, tr4) \<Rightarrow> Some (Inl e, tr4)
      | Some (Inr mx_answer, tr4) \<Rightarrow>
     (case mx_entries [] mx_answer of
        Inl e \<Rightarrow> Some (Inl e, tr4)
      | Inr mxrecords \<Rightarrow>
          Some (Inr [(''CNAME'', cname_entries nm cname_answer),
                     (''A'', address_entries rdatatype_A a_answer),
                     (''AAAA'', address_entries rdatatype_AAAA aaaa_answer),
                     (''MX'', mxrecords)], tr4)))))))"

section \<open>What the properties speak of\<close>





text \<open>
  A query is unanswered when the call returns \<^verbatim>\<open>None\<close>, or a response whose answer
  section is empty and whose other sections lead nowhere: every additional set starts
  with a record that is no address, every authority set with a start-of-authority.
\<close>

definition barren :: "message \<Rightarrow> bool" where
  "barren r \<longleftrightarrow>
     answer r = [] \<and>
     (\<forall>rs \<in> set (additional r).
        case first rs of Inl e \<Rightarrow> False | Inr d \<Rightarrow> rdata_rdtype d \<noteq> rdatatype_A) \<and>
     (\<forall>rs \<in> set (authority r).
        case first rs of Inl e \<Rightarrow> False | Inr d \<Rightarrow> rdata_rdtype d = rdatatype_SOA)"

fun unanswered :: "reply \<Rightarrow> bool" where
  "unanswered (Raises e) = False"
| "unanswered (Returns None) = True"
| "unanswered (Returns (Some r)) = barren r"

text \<open>What \<^verbatim>\<open>response = dns.query.udp(...)\<close> binds when the call returns.\<close>

fun returned :: "reply \<Rightarrow> message option" where
  "returned (Returns v) = v"
| "returned (Raises e) = None"


text \<open>The addresses the referral code reads: of each set, the first record's text.\<close>

definition first_strs :: "rrset list \<Rightarrow> string list" where
  "first_strs rss = map (\<lambda>rs. rdata_str (hd (items rs))) rss"

text \<open>
  One lookup function carries another when it has every outcome the other has; a lookup
  with more fuel carries the lookup with less.
\<close>

definition carries :: "lookup_fn \<Rightarrow> lookup_fn \<Rightarrow> bool" where
  "carries rec' rec \<longleftrightarrow> (\<forall>t q tr x. rec t q tr = Some x \<longrightarrow> rec' t q tr = Some x)"

section \<open>Example networks\<close>

text \<open>
  The networks below answer by the query alone. Their name construction stands in for
  \<^verbatim>\<open>dns.name.from_text\<close>: it refuses a text with an empty label and makes every other
  text absolute.
\<close>

fun empty_label :: "string \<Rightarrow> bool" where
  "empty_label (c # d # cs) = ((c = CHR ''.'' \<and> d = CHR ''.'') \<or> empty_label (d # cs))"
| "empty_label cs = False"

definition example_from_text :: "string \<Rightarrow> error + dname" where
  "example_from_text s =
     (if empty_label s then Inl (BadName s)
      else if s \<noteq> [] \<and> last s = CHR ''.'' then Inr s
      else Inr (s @ ''.''))"

definition static_env :: "(query \<Rightarrow> reply) \<Rightarrow> env" where
  "static_env net = \<lparr>udp = (\<lambda>tr. net), from_text = example_from_text\<rparr>"

definition answers :: "rrset list \<Rightarrow> reply" where
  "answers rss = Returns (Some \<lparr>answer = rss, authority = [], additional = []\<rparr>)"

definition refers :: "rrset list \<Rightarrow> rrset list \<Rightarrow> reply" where
  "refers auth add = Returns (Some \<lparr>answer = [], authority = auth, additional = add\<rparr>)"

text \<open>Every query times out: \<^verbatim>\<open>dns.query.udp\<close> raises.\<close>

definition timeout_env :: env where
  "timeout_env = static_env (\<lambda>q. Raises Timeout)"


text \<open>Every server answers every query with one address record.\<close>

definition address_env :: env where
  "address_env =
     static_env (\<lambda>(n, t, s). answers [\<lparr>name = n, rdtype = rdatatype_A, items = [A_rdata ''192.0.2.1'']\<rparr>])"




text \<open>
  The first root server refers to a nameserver whose glue set has two addresses; no
  other server returns a message.
\<close>

definition glue_referral :: message where
  "glue_referral =
     \<lparr>answer = [],
      authority = [\<lparr>name = ''example.'', rdtype = rdatatype_NS, items = [NS_rdata ''ns.example.'']\<rparr>],
      additional = [\<lparr>name = ''ns.example.'', rdtype = rdatatype_A,
                     items = [A_rdata ''192.0.2.1'', A_rdata ''192.0.2.2'']\<rparr>]\<rparr>"

definition glue_env :: env where
  "glue_env =
     static_env (\<lambda>(n, t, s).
       if s = ''198.41.0.4'' then Returns (Some glue_referral) else Returns None)"

text \<open>
  The first root server refers \<^verbatim>\<open>example.\<close> to two nameservers by name only, and
  answers for the first of them with a set of two addresses; every other query for
  \<^verbatim>\<open>example.\<close> is answered with its address.
\<close>

definition ns_authority :: "rrset list" where
  "ns_authority =
     [\<lparr>name = ''example.'', rdtype = rdatatype_NS,
       items = [NS_rdata ''ns1.example.'', NS_rdata ''ns2.example.'']\<rparr>]"

definition ns_env :: env where
  "ns_env =
     static_env (\<lambda>(n, t, s).
       if n = ''ns1.example.'' then
         answers [\<lparr>name = ''ns1.example.'', rdtype = rdatatype_A,
                   items = [A_rdata ''192.0.2.1'', A_rdata ''192.0.2.9'']\<rparr>]
       else if n = ''example.'' \<and> s = ''198.41.0.4'' then refers ns_authority []
       else if n = ''example.'' then
         answers [\<lparr>name = ''example.'', rdtype = rdatatype_A, items = [A_rdata ''192.0.2.7'']\<rparr>]
       else Returns None)"

text \<open>
  \<^verbatim>\<open>old.example.\<close> is renamed to \<^verbatim>\<open>new.example.\<close> by a DNAME record (type 39): a
  query for the alias of \<^verbatim>\<open>www.old.example.\<close> is answered with that record and the alias
  made from it. Every other query gets a response with empty sections.
\<close>

definition dname_env :: env where
  "dname_env =
     static_env (\<lambda>(n, t, s).
       if n = ''www.old.example.'' \<and> t = rdatatype_CNAME then
         answers [\<lparr>name = ''old.example.'', rdtype = 39, items = [Other_rdata 39 ''new.example.'']\<rparr>,
                  \<lparr>name = ''www.old.example.'', rdtype = rdatatype_CNAME,
                   items = [CNAME_rdata ''www.new.example.'']\<rparr>]
       else answers [])"

text \<open>
  Every server answers that the name exists and has no record of the type asked for:
  an empty answer section and the zone's start-of-authority record.
\<close>

definition nodata :: message where
  "nodata =
     \<lparr>answer = [],
      authority = [\<lparr>name = ''example.'', rdtype = rdatatype_SOA,
                    items = [Other_rdata rdatatype_SOA
                               ''ns.example. admin.example. 1 7200 900 1209600 86400'']\<rparr>],
      additional = []\<rparr>"

definition nodata_env :: env where
  "nodata_env = static_env (\<lambda>q. Returns (Some nodata))"

section \<open>Properties\<close>

lemma ROOT_SERVERS_length: "length ROOT_SERVERS = 13"
  by (simp add: ROOT_SERVERS_def)

text \<open>The test of line 119 changes nothing: the loop over an empty section adds nothing.\<close>

lemma additional_guard [simp]:
  "(if rss \<noteq> [] then collect_additional [] rss else Inr []) = collect_additional [] rss"
  by (cases rss) simp_all

subsection \<open>More fuel changes no outcome\<close>

text \<open>
  An outcome reached with some fuel is the outcome with any more: the fuel only decides
  whether the model follows a run to its end.
\<close>

lemma chase_records_mono:
  assumes "carries rec' rec"
  shows "chase_records rec qt cr tr ds = Some out \<Longrightarrow> chase_records rec' qt cr tr ds = Some out"
proof (induction ds arbitrary: cr tr)
  case Nil
  then show ?case by simp
next
  case (Cons d ds)
  show ?case
  proof (cases "rdata_rdtype d = rdatatype_CNAME")
    case False
    with Cons show ?thesis by simp
  next
    case True
    show ?thesis
    proof (cases "target d")
      case (Inl e)
      with True Cons.prems show ?thesis by simp
    next
      case (Inr t)
      with True Cons.prems obtain x where x: "rec t qt tr = Some x"
        by (cases "rec t qt tr") auto
      with assms have x': "rec' t qt tr = Some x" unfolding carries_def by blast
      obtain res tr' where p: "x = (res, tr')" by (cases x)
      show ?thesis
      proof (cases res)
        case (Inl e)
        with True Inr x p Cons.prems have "out = (Inl e, tr')" by simp
        with True Inr x' p Inl show ?thesis by simp
      next
        case r: (Inr v)
        with True Inr x p Cons.prems have "chase_records rec qt v tr' ds = Some out" by simp
        then have "chase_records rec' qt v tr' ds = Some out" by (rule Cons.IH)
        with True Inr x' p r show ?thesis by simp
      qed
    qed
  qed
qed

lemma chase_mono:
  assumes "carries rec' rec"
  shows "chase rec qt cr tr rss = Some out \<Longrightarrow> chase rec' qt cr tr rss = Some out"
proof (induction rss arbitrary: cr tr)
  case Nil
  then show ?case by simp
next
  case (Cons a rss)
  from Cons.prems obtain x where x: "chase_records rec qt cr tr (items a) = Some x"
    by (cases "chase_records rec qt cr tr (items a)") auto
  then have x': "chase_records rec' qt cr tr (items a) = Some x"
    by (rule chase_records_mono [OF assms])
  obtain res tr' where p: "x = (res, tr')" by (cases x)
  show ?case
  proof (cases res)
    case (Inl e)
    with x p Cons.prems have "out = (Inl e, tr')" by simp
    with x' p Inl show ?thesis by simp
  next
    case r: (Inr v)
    with x p Cons.prems have "chase rec qt v tr' rss = Some out" by simp
    then have "chase rec' qt v tr' rss = Some out" by (rule Cons.IH)
    with x' p r show ?thesis by simp
  qed
qed

lemma resolve_authorities_mono:
  assumes "carries rec' rec"
  shows "resolve_authorities rec E sv tr rss = Some out \<Longrightarrow>
         resolve_authorities rec' E sv tr rss = Some out"
proof (induction rss arbitrary: sv tr)
  case Nil
  then show ?case by simp
next
  case (Cons auth rss)
  show ?case
  proof (cases "first auth")
    case (Inl e)
    with Cons.prems show ?thesis by simp
  next
    case d: (Inr d)
    show ?thesis
    proof (cases "rdata_rdtype d = rdatatype_SOA")
      case True
      with d Cons show ?thesis by simp
    next
      case False
      show ?thesis
      proof (cases "from_text E (rdata_str d)")
        case (Inl e)
        with d False Cons.prems show ?thesis by simp
      next
        case n: (Inr n)
        with d False Cons.prems obtain x where x: "rec n rdatatype_A tr = Some x"
          by (cases "rec n rdatatype_A tr") auto
        with assms have x': "rec' n rdatatype_A tr = Some x" unfolding carries_def by blast
        obtain res tr' where p: "x = (res, tr')" by (cases x)
        show ?thesis
        proof (cases res)
          case (Inl e)
          with d False n x p Cons.prems have "out = (Inl e, tr')" by simp
          with d False n x' p Inl show ?thesis by simp
        next
          case r: (Inr v)
          show ?thesis
          proof (cases v)
            case None
            with d False n x p r Cons.prems
            have "resolve_authorities rec E sv tr' rss = Some out" by simp
            then have "resolve_authorities rec' E sv tr' rss = Some out" by (rule Cons.IH)
            with d False n x' p r None show ?thesis by simp
          next
            case (Some m)
            show ?thesis
            proof (cases "append_addresses sv (answer m)")
              case (Inl e)
              with d False n x p r Some Cons.prems have "out = (Inl e, tr')" by simp
              with d False n x' p r Some Inl show ?thesis by simp
            next
              case sv': (Inr sv')
              with d False n x p r Some Cons.prems
              have "resolve_authorities rec E sv' tr' rss = Some out" by simp
              then have "resolve_authorities rec' E sv' tr' rss = Some out" by (rule Cons.IH)
              with d False n x' p r Some sv' show ?thesis by simp
            qed
          qed
        qed
      qed
    qed
  qed
qed

lemma lookup_loop_mono:
  assumes sub: "carries rec' rec"
  shows "lookup_loop k rec E nm qt servers response tr = Some out \<Longrightarrow> k \<le> k' \<Longrightarrow>
         lookup_loop k' rec' E nm qt servers response tr = Some out"
proof (induction k arbitrary: k' servers response tr)
  case 0
  then show ?case by simp
next
  case (Suc k)
  then obtain j where k': "k' = Suc j" and kj: "k \<le> j" by (cases k') auto
  show ?case
  proof (cases servers)
    case Nil
    with Suc.prems k' show ?thesis by simp
  next
    case (Cons server rest)
    let ?tr1 = "tr @ [(nm, qt, server)]"
    show ?thesis
    proof (cases "udp E tr (nm, qt, server)")
      case (Raises e)
      with Cons Suc.prems k' show ?thesis by simp
    next
      case (Returns v)
      show ?thesis
      proof (cases v)
        case None
        with Cons Returns Suc.prems
        have "lookup_loop k rec E nm qt rest (Bound None) ?tr1 = Some out" by simp
        from Suc.IH [OF this kj] Cons Returns None k' show ?thesis by simp
      next
        case (Some r)
        show ?thesis
        proof (cases "answer r = []")
          case False
          with Cons Returns Some Suc.prems obtain x where
            x: "chase rec qt None ?tr1 (answer r) = Some x"
            by (cases "chase rec qt None ?tr1 (answer r)") auto
          then have "chase rec' qt None ?tr1 (answer r) = Some x"
            by (rule chase_mono [OF sub])
          with x Cons Returns Some False Suc.prems k' show ?thesis by simp
        next
          case True
          show ?thesis
          proof (cases "collect_additional [] (additional r)")
            case (Inl e)
            with Cons Returns Some True Suc.prems k' show ?thesis by simp
          next
            case (Inr next_servers)
            show ?thesis
            proof (cases "next_servers = []")
              case False
              with Cons Returns Some True Inr Suc.prems
              have "lookup_loop k rec E nm qt next_servers (Bound (Some r)) ?tr1 = Some out"
                by simp
              from Suc.IH [OF this kj] Cons Returns Some True Inr False k' show ?thesis by simp
            next
              case e: True
              with Cons Returns Some True Inr Suc.prems obtain x where
                x: "resolve_authorities rec E rest ?tr1 (authority r) = Some x"
                by (cases "resolve_authorities rec E rest ?tr1 (authority r)") auto
              then have x': "resolve_authorities rec' E rest ?tr1 (authority r) = Some x"
                by (rule resolve_authorities_mono [OF sub])
              obtain res tr' where p: "x = (res, tr')" by (cases x)
              show ?thesis
              proof (cases res)
                case (Inl err)
                with x p Cons Returns Some True Inr e Suc.prems have "out = (Inl err, tr')" by simp
                with x' p Inl Cons Returns Some True Inr e k' show ?thesis by simp
              next
                case sv: (Inr servers')
                with x p Cons Returns Some True Inr e Suc.prems
                have "lookup_loop k rec E nm qt servers' (Bound (Some r)) tr' = Some out" by simp
                from Suc.IH [OF this kj] x' p sv Cons Returns Some True Inr e k'
                show ?thesis by simp
              qed
            qed
          qed
        qed
      qed
    qed
  qed
qed

lemma lookup_Suc_mono:
  "lookup n E t q tr = Some out \<Longrightarrow> lookup (Suc n) E t q tr = Some out"
proof (induction n arbitrary: t q tr out)
  case 0
  then show ?case by simp
next
  case (Suc n)
  from Suc.prems have "lookup_loop (Suc n) (lookup n E) E t q ROOT_SERVERS Unbound tr = Some out"
    by simp
  moreover have "carries (lookup (Suc n) E) (lookup n E)"
    unfolding carries_def using Suc.IH by blast
  ultimately have
    "lookup_loop (Suc (Suc n)) (lookup (Suc n) E) E t q ROOT_SERVERS Unbound tr = Some out"
    using lookup_loop_mono [of "lookup (Suc n) E" "lookup n E" "Suc n" E t q ROOT_SERVERS Unbound
        tr out "Suc (Suc n)"]
    by simp
  then show ?case by simp
qed

lemma lookup_mono:
  "lookup n E t q tr = Some out \<Longrightarrow> n \<le> n' \<Longrightarrow> lookup n' E t q tr = Some out"
proof (induction n' arbitrary: n)
  case 0
  then show ?case by simp
next
  case (Suc n')
  show ?case
  proof (cases "n = Suc n'")
    case True
    with Suc.prems show ?thesis by simp
  next
    case False
    with Suc.prems have "n \<le> n'" by simp
    from Suc.IH [OF Suc.prems(1) this] show ?thesis by (rule lookup_Suc_mono)
  qed
qed

lemma lookup_answer_mono:
  "lookup_answer n E t q tr = Some out \<Longrightarrow> n \<le> n' \<Longrightarrow> lookup_answer n' E t q tr = Some out"
proof -
  assume a: "lookup_answer n E t q tr = Some out" and le: "n \<le> n'"
  then obtain x where x: "lookup n E t q tr = Some x"
    by (cases "lookup n E t q tr") (auto simp: lookup_answer_def)
  from lookup_mono [OF x le] a x show ?thesis by (simp add: lookup_answer_def)
qed

lemma collect_results_mono:
  "collect_results n E nm tr = Some out \<Longrightarrow> n \<le> n' \<Longrightarrow> collect_results n' E nm tr = Some out"
proof -
  assume a: "collect_results n E nm tr = Some out" and le: "n \<le> n'"
  have m: "\<And>t q tr x. lookup_answer n E t q tr = Some x \<Longrightarrow> lookup_answer n' E t q tr = Some x"
    using le by (rule lookup_answer_mono [rotated])
  show ?thesis
  proof (cases "from_text E nm")
    case (Inl e)
    with a show ?thesis by (simp add: collect_results_def)
  next
    case (Inr tn)
    with a obtain x1 where x1: "lookup_answer n E tn rdatatype_CNAME tr = Some x1"
      by (cases "lookup_answer n E tn rdatatype_CNAME tr") (auto simp: collect_results_def)
    obtain r1 tr1 where p1: "x1 = (r1, tr1)" by (cases x1)
    show ?thesis
    proof (cases r1)
      case (Inl e)
      with a Inr x1 p1 m [OF x1] show ?thesis by (simp add: collect_results_def)
    next
      case a1: (Inr ans1)
      with a Inr x1 p1 obtain x2 where x2: "lookup_answer n E tn rdatatype_A tr1 = Some x2"
        by (cases "lookup_answer n E tn rdatatype_A tr1") (auto simp: collect_results_def)
      obtain r2 tr2 where p2: "x2 = (r2, tr2)" by (cases x2)
      show ?thesis
      proof (cases r2)
        case (Inl e)
        with a Inr x1 p1 a1 x2 p2 m [OF x1] m [OF x2] show ?thesis
          by (simp add: collect_results_def)
      next
        case a2: (Inr ans2)
        with a Inr x1 p1 a1 x2 p2 obtain x3 where
          x3: "lookup_answer n E tn rdatatype_AAAA tr2 = Some x3"
          by (cases "lookup_answer n E tn rdatatype_AAAA tr2") (auto simp: collect_results_def)
        obtain r3 tr3 where p3: "x3 = (r3, tr3)" by (cases x3)
        show ?thesis
        proof (cases r3)
          case (Inl e)
          with a Inr x1 p1 a1 x2 p2 a2 x3 p3 m [OF x1] m [OF x2] m [OF x3] show ?thesis
            by (simp add: collect_results_def)
        next
          case a3: (Inr ans3)
          with a Inr x1 p1 a1 x2 p2 a2 x3 p3 obtain x4 where
            x4: "lookup_answer n E tn rdatatype_MX tr3 = Some x4"
            by (cases "lookup_answer n E tn rdatatype_MX tr3") (auto simp: collect_results_def)
          with a Inr x1 p1 a1 x2 p2 a2 x3 p3 a3 m [OF x1] m [OF x2] m [OF x3] m [OF x4]
          show ?thesis
            by (simp add: collect_results_def)
        qed
      qed
    qed
  qed
qed

subsection \<open>Loops that do nothing\<close>






lemma sent_Cons:
  "tr @ (nm, qt, s) # map (\<lambda>s. (nm, qt, s)) (take j rest) =
   tr @ map (\<lambda>s. (nm, qt, s)) (take (Suc j) (s # rest))"
  by simp


subsection \<open>Running out of candidates\<close>

lemma collect_additional_barren:
  "\<forall>rs \<in> set rss. case first rs of Inl e \<Rightarrow> False | Inr d \<Rightarrow> rdata_rdtype d \<noteq> rdatatype_A \<Longrightarrow>
   collect_additional acc rss = Inr acc"
  by (induction rss) (auto split: sum.splits)

lemma resolve_authorities_barren:
  "\<forall>rs \<in> set rss. case first rs of Inl e \<Rightarrow> False | Inr d \<Rightarrow> rdata_rdtype d = rdatatype_SOA \<Longrightarrow>
   resolve_authorities rec E sv tr rss = Some (Inr sv, tr)"
  by (induction rss) (auto split: sum.splits)

lemma lookup_loop_unanswered:
  "\<forall>j<length servers.
      unanswered (udp E (tr @ map (\<lambda>s. (nm, qt, s)) (take j servers)) (nm, qt, servers ! j)) \<Longrightarrow>
   length servers < k \<Longrightarrow>
   lookup_loop k rec E nm qt servers response tr =
     Some (if servers = [] then return_response response
           else Inr (returned (udp E (tr @ map (\<lambda>s. (nm, qt, s)) (butlast servers))
                                (nm, qt, last servers))),
           tr @ map (\<lambda>s. (nm, qt, s)) servers)"
proof (induction servers arbitrary: k response tr)
  case Nil
  then obtain k' where "k = Suc k'" by (cases k) auto
  then show ?case by simp
next
  case (Cons s rest)
  then obtain k' where k: "k = Suc k'" and k': "length rest < k'" by (cases k) auto
  let ?q = "(nm, qt, s)"
  from Cons.prems(1) have here: "unanswered (udp E tr ?q)" by fastforce
  have later: "\<forall>j<length rest.
      unanswered (udp E ((tr @ [?q]) @ map (\<lambda>s. (nm, qt, s)) (take j rest)) (nm, qt, rest ! j))"
  proof (intro allI impI)
    fix j assume "j < length rest"
    then have "Suc j < length (s # rest)" by simp
    with Cons.prems(1) have
      "unanswered (udp E (tr @ map (\<lambda>s. (nm, qt, s)) (take (Suc j) (s # rest)))
                     (nm, qt, (s # rest) ! Suc j))"
      by blast
    then show "unanswered (udp E ((tr @ [?q]) @ map (\<lambda>s. (nm, qt, s)) (take j rest)) (nm, qt, rest ! j))"
      by simp
  qed
  have rest: "\<And>resp. lookup_loop k' rec E nm qt rest resp (tr @ [?q]) =
     Some (if rest = [] then return_response resp
           else Inr (returned (udp E ((tr @ [?q]) @ map (\<lambda>s. (nm, qt, s)) (butlast rest))
                                (nm, qt, last rest))),
           (tr @ [?q]) @ map (\<lambda>s. (nm, qt, s)) rest)"
    using Cons.IH [OF later k'] .
  show ?case
  proof (cases "udp E tr ?q")
    case (Raises e)
    with here show ?thesis by simp
  next
    case (Returns v)
    show ?thesis
    proof (cases v)
      case None
      with Returns k rest [of "Bound None"] show ?thesis by simp
    next
      case (Some r)
      with here Returns have b: "barren r" by simp
      then have "answer r = []"
        and "collect_additional [] (additional r) = Inr []"
        and "resolve_authorities rec E rest (tr @ [?q]) (authority r) = Some (Inr rest, tr @ [?q])"
        by (simp_all add: barren_def collect_additional_barren resolve_authorities_barren)
      with Some Returns k rest [of "Bound (Some r)"] show ?thesis by simp
    qed
  qed
qed

text \<open>
  C5. When every candidate still to be asked goes unanswered, the loop asks each of them
  once, in order, and then returns normally what the last query returned, a message with
  an empty answer section or \<^verbatim>\<open>None\<close>; with no candidate left it returns the
  response it holds. In particular \<^verbatim>\<open>lookup\<close>, which starts from the root servers,
  returns what the last root server returned. No error is raised.
\<close>

theorem lookup_exhausted_returns_last:
  assumes "\<forall>j<length servers.
      unanswered (udp E (tr @ map (\<lambda>s. (nm, qt, s)) (take j servers)) (nm, qt, servers ! j))"
    and "length servers < k"
  shows "lookup_loop k rec E nm qt servers (Bound v) tr =
           Some (Inr (if servers = [] then v
                      else returned (udp E (tr @ map (\<lambda>s. (nm, qt, s)) (butlast servers))
                                       (nm, qt, last servers))),
                 tr @ map (\<lambda>s. (nm, qt, s)) servers) \<and>
         (servers = ROOT_SERVERS \<longrightarrow>
            lookup k E nm qt tr =
              Some (Inr (returned (udp E (tr @ map (\<lambda>s. (nm, qt, s)) (butlast ROOT_SERVERS))
                                     (nm, qt, last ROOT_SERVERS))),
                    tr @ map (\<lambda>s. (nm, qt, s)) ROOT_SERVERS))"
proof (intro conjI impI)
  show "lookup_loop k rec E nm qt servers (Bound v) tr =
           Some (Inr (if servers = [] then v
                      else returned (udp E (tr @ map (\<lambda>s. (nm, qt, s)) (butlast servers))
                                       (nm, qt, last servers))),
                 tr @ map (\<lambda>s. (nm, qt, s)) servers)"
    using lookup_loop_unanswered [OF assms, of rec "Bound v"] by simp
next
  assume roots: "servers = ROOT_SERVERS"
  with assms(2) obtain n where n: "k = Suc n" by (cases k) auto
  have "ROOT_SERVERS \<noteq> []" using ROOT_SERVERS_length by auto
  with roots n lookup_loop_unanswered [OF assms, of "lookup n E" Unbound]
  show "lookup k E nm qt tr =
      Some (Inr (returned (udp E (tr @ map (\<lambda>s. (nm, qt, s)) (butlast ROOT_SERVERS))
                             (nm, qt, last ROOT_SERVERS))),
            tr @ map (\<lambda>s. (nm, qt, s)) ROOT_SERVERS)"
    by simp
qed

theorem lookup_exhausted_returns_last_witness:
  "lookup 14 nodata_env ''example.'' rdatatype_AAAA [] =
     Some (Inr (Some nodata), map (\<lambda>s. (''example.'', rdatatype_AAAA, s)) ROOT_SERVERS)"
proof -
  have u: "\<And>tr q. udp nodata_env tr q = Returns (Some nodata)"
    by (simp add: nodata_env_def static_env_def)
  have b: "barren nodata"
    by (simp add: barren_def nodata_def first_def)
  have "\<forall>j<length ROOT_SERVERS.
      unanswered (udp nodata_env ([] @ map (\<lambda>s. (''example.'', rdatatype_AAAA, s)) (take j ROOT_SERVERS))
                    (''example.'', rdatatype_AAAA, ROOT_SERVERS ! j))"
    by (simp add: u b)
  moreover have "length ROOT_SERVERS < 14" by (simp add: ROOT_SERVERS_length)
  ultimately show ?thesis
    using lookup_exhausted_returns_last [of ROOT_SERVERS nodata_env "[]" "''example.''" rdatatype_AAAA 14]
    by (simp add: u)
qed

subsection \<open>The root servers, in order\<close>





subsection \<open>What a referral reads\<close>

lemma first_nonempty: "items rs \<noteq> [] \<Longrightarrow> first rs = Inr (hd (items rs))"
  by (cases "items rs") (simp_all add: first_def)


lemma collect_additional_firsts:
  "\<forall>rs \<in> set rss. items rs \<noteq> [] \<Longrightarrow>
   collect_additional acc rss =
     Inr (acc @ first_strs (filter (\<lambda>rs. rdata_rdtype (hd (items rs)) = rdatatype_A) rss))"
  by (induction rss arbitrary: acc) (simp_all add: first_nonempty first_strs_def)

lemma append_addresses_firsts:
  "\<forall>a \<in> set rss. rdtype a = rdatatype_A \<longrightarrow> items a \<noteq> [] \<Longrightarrow>
   append_addresses acc rss =
     Inr (acc @ first_strs (filter (\<lambda>a. rdtype a = rdatatype_A) rss))"
  by (induction rss arbitrary: acc) (simp_all add: first_nonempty first_strs_def)

lemma append_addresses_extends:
  "append_addresses acc rss = Inr sv \<Longrightarrow> \<exists>added. sv = acc @ added"
proof (induction rss arbitrary: acc)
  case Nil
  then show ?case by simp
next
  case (Cons a rss)
  show ?case
  proof (cases "rdtype a = rdatatype_A")
    case False
    with Cons show ?thesis by simp
  next
    case True
    with Cons.prems obtain d where "first a = Inr d"
      and "append_addresses (acc @ [rdata_str d]) rss = Inr sv"
      by (auto split: sum.splits)
    with Cons.IH [of "acc @ [rdata_str d]"] show ?thesis by auto
  qed
qed

lemma resolve_authorities_extends:
  "resolve_authorities rec E sv tr rss = Some (Inr sv', tr') \<Longrightarrow> \<exists>added. sv' = sv @ added"
proof (induction rss arbitrary: sv tr)
  case Nil
  then show ?case by simp
next
  case (Cons auth rss)
  from Cons.prems obtain d where d: "first auth = Inr d"
    by (auto split: sum.splits)
  show ?case
  proof (cases "rdata_rdtype d = rdatatype_SOA")
    case True
    with d Cons show ?thesis by simp
  next
    case False
    with d Cons.prems obtain n out t where n: "from_text E (rdata_str d) = Inr n"
      and out: "rec n rdatatype_A tr = Some (Inr out, t)"
      by (auto split: sum.splits option.splits prod.splits)
    show ?thesis
    proof (cases out)
      case None
      with d False n out Cons show ?thesis by simp
    next
      case (Some m)
      with d False n out Cons.prems obtain sv1 where
        sv1: "append_addresses sv (answer m) = Inr sv1"
        and r: "resolve_authorities rec E sv1 t rss = Some (Inr sv', tr')"
        by (auto split: sum.splits)
      from append_addresses_extends [OF sv1] Cons.IH [OF r] show ?thesis by auto
    qed
  qed
qed

text \<open>
  C2 as amended. A response with an empty answer section whose additional sets are not
  empty, and one of which starts with an address record, makes the next pass of the loop
  run on the texts of the first records of the additional sets that start with an
  address record, in section order, and on nothing else: the candidates left over and
  the authority section play no part.
\<close>

theorem referral_replaces_candidates:
  assumes "udp E tr (nm, qt, server) = Returns (Some r)"
    and "answer r = []"
    and "\<forall>rs \<in> set (additional r). items rs \<noteq> []"
    and "\<exists>rs \<in> set (additional r). rdata_rdtype (hd (items rs)) = rdatatype_A"
  shows "lookup_loop (Suc k) rec E nm qt (server # rest) response tr =
           lookup_loop k rec E nm qt
             (first_strs (filter (\<lambda>rs. rdata_rdtype (hd (items rs)) = rdatatype_A) (additional r)))
             (Bound (Some r)) (tr @ [(nm, qt, server)])"
proof -
  let ?next = "first_strs (filter (\<lambda>rs. rdata_rdtype (hd (items rs)) = rdatatype_A) (additional r))"
  from assms(3) have c: "collect_additional [] (additional r) = Inr ?next"
    using collect_additional_firsts [of "additional r" "[]"] by simp
  from assms(4) have "filter (\<lambda>rs. rdata_rdtype (hd (items rs)) = rdatatype_A) (additional r) \<noteq> []"
    by (simp add: filter_empty_conv)
  then have "?next \<noteq> []" by (simp add: first_strs_def)
  with assms(1,2) c show ?thesis by simp
qed

theorem referral_replaces_candidates_witness:
  "lookup_loop 3 (lookup 2 glue_env) glue_env ''example.'' rdatatype_A ROOT_SERVERS Unbound [] =
   lookup_loop 2 (lookup 2 glue_env) glue_env ''example.'' rdatatype_A [''192.0.2.1'']
     (Bound (Some glue_referral)) [(''example.'', rdatatype_A, ''198.41.0.4'')]"
proof -
  have u: "udp glue_env [] (''example.'', rdatatype_A, ''198.41.0.4'') = Returns (Some glue_referral)"
    by (simp add: glue_env_def static_env_def)
  have a: "answer glue_referral = []"
    by (simp add: glue_referral_def)
  have n: "\<forall>rs \<in> set (additional glue_referral). items rs \<noteq> []"
    by (simp add: glue_referral_def)
  have e: "\<exists>rs \<in> set (additional glue_referral). rdata_rdtype (hd (items rs)) = rdatatype_A"
    by (simp add: glue_referral_def)
  have f: "first_strs (filter (\<lambda>rs. rdata_rdtype (hd (items rs)) = rdatatype_A)
             (additional glue_referral)) = [''192.0.2.1'']"
    by (simp add: glue_referral_def first_strs_def)
  from referral_replaces_candidates [OF u a n e, of 2 "lookup 2 glue_env" "tl ROOT_SERVERS" Unbound]
  show ?thesis
    unfolding f by (simp add: ROOT_SERVERS_def numeral_3_eq_3 numeral_2_eq_2)
qed

text \<open>
  A glue set with two addresses: the section has two address records, the candidate list
  holds the first alone, and the second is never asked.
\<close>

theorem glue_second_address_dropped:
  "collect_additional [] (additional glue_referral) = Inr [''192.0.2.1''] \<and>
   map rdata_str (filter (\<lambda>d. rdata_rdtype d = rdatatype_A)
      (concat (map items (additional glue_referral)))) = [''192.0.2.1'', ''192.0.2.2''] \<and>
   lookup 3 glue_env ''example.'' rdatatype_A [] =
     Some (Inr None, [(''example.'', rdatatype_A, ''198.41.0.4''),
                      (''example.'', rdatatype_A, ''192.0.2.1'')])"
  by (simp add: glue_referral_def first_def glue_env_def static_env_def ROOT_SERVERS_def
      numeral_3_eq_3)

text \<open>
  C4 as amended. A response with an empty answer section whose additional sets are not
  empty and none of which starts with an address record sends the loop through the
  authority section, and the next pass runs on the candidates that come out of it, which
  are the candidates left over followed by what was appended. In the authority section a
  set that starts with a start-of-authority record is passed over. Of any other set the
  first record's text is made a name and looked up afresh with type A; when that lookup
  returns a message, the text of the first record of each of its answer sets of type A
  is appended to the candidates.
\<close>

theorem authority_referral_appends:
  assumes "udp E tr (nm, qt, server) = Returns (Some r)"
    and "answer r = []"
    and "\<forall>rs \<in> set (additional r). items rs \<noteq> [] \<and> rdata_rdtype (hd (items rs)) \<noteq> rdatatype_A"
  shows "lookup_loop (Suc k) rec E nm qt (server # rest) response tr =
           (case resolve_authorities rec E rest (tr @ [(nm, qt, server)]) (authority r) of
              None \<Rightarrow> None
            | Some (Inl e, tr') \<Rightarrow> Some (Inl e, tr')
            | Some (Inr servers', tr') \<Rightarrow>
                lookup_loop k rec E nm qt servers' (Bound (Some r)) tr') \<and>
         (\<forall>servers' tr'.
            resolve_authorities rec E rest (tr @ [(nm, qt, server)]) (authority r) =
              Some (Inr servers', tr') \<longrightarrow>
            (\<exists>added. servers' = rest @ added)) \<and>
         (\<forall>auth others sv t d.
            first auth = Inr d \<and> rdata_rdtype d = rdatatype_SOA \<longrightarrow>
            resolve_authorities rec E sv t (auth # others) = resolve_authorities rec E sv t others) \<and>
         (\<forall>auth others sv t d n m t'.
            first auth = Inr d \<and> rdata_rdtype d \<noteq> rdatatype_SOA \<and>
            from_text E (rdata_str d) = Inr n \<and>
            rec n rdatatype_A t = Some (Inr (Some m), t') \<and>
            (\<forall>a \<in> set (answer m). rdtype a = rdatatype_A \<longrightarrow> items a \<noteq> []) \<longrightarrow>
            resolve_authorities rec E sv t (auth # others) =
              resolve_authorities rec E
                (sv @ first_strs (filter (\<lambda>a. rdtype a = rdatatype_A) (answer m))) t' others)"
proof (intro conjI allI impI)
  from assms(3) have "filter (\<lambda>rs. rdata_rdtype (hd (items rs)) = rdatatype_A) (additional r) = []"
    by (simp add: filter_empty_conv)
  moreover from assms(3) have "\<forall>rs \<in> set (additional r). items rs \<noteq> []" by simp
  ultimately have "collect_additional [] (additional r) = Inr []"
    using collect_additional_firsts [of "additional r" "[]"] by (simp add: first_strs_def)
  with assms(1,2) show "lookup_loop (Suc k) rec E nm qt (server # rest) response tr =
           (case resolve_authorities rec E rest (tr @ [(nm, qt, server)]) (authority r) of
              None \<Rightarrow> None
            | Some (Inl e, tr') \<Rightarrow> Some (Inl e, tr')
            | Some (Inr servers', tr') \<Rightarrow>
                lookup_loop k rec E nm qt servers' (Bound (Some r)) tr')"
    by simp
next
  fix servers' tr'
  assume "resolve_authorities rec E rest (tr @ [(nm, qt, server)]) (authority r) =
            Some (Inr servers', tr')"
  then show "\<exists>added. servers' = rest @ added"
    by (rule resolve_authorities_extends)
next
  fix auth others sv t d
  assume "first auth = Inr d \<and> rdata_rdtype d = rdatatype_SOA"
  then show "resolve_authorities rec E sv t (auth # others) = resolve_authorities rec E sv t others"
    by simp
next
  fix auth others sv t d n m t'
  assume h: "first auth = Inr d \<and> rdata_rdtype d \<noteq> rdatatype_SOA \<and>
            from_text E (rdata_str d) = Inr n \<and>
            rec n rdatatype_A t = Some (Inr (Some m), t') \<and>
            (\<forall>a \<in> set (answer m). rdtype a = rdatatype_A \<longrightarrow> items a \<noteq> [])"
  then have "append_addresses sv (answer m) =
      Inr (sv @ first_strs (filter (\<lambda>a. rdtype a = rdatatype_A) (answer m)))"
    by (intro append_addresses_firsts) simp
  with h show "resolve_authorities rec E sv t (auth # others) =
              resolve_authorities rec E
                (sv @ first_strs (filter (\<lambda>a. rdtype a = rdatatype_A) (answer m))) t' others"
    by simp
qed

theorem authority_referral_appends_witness:
  "lookup_loop 3 (lookup 1 ns_env) ns_env ''example.'' rdatatype_A [''198.41.0.4'', ''203.0.113.5''] Unbound [] =
   lookup_loop 2 (lookup 1 ns_env) ns_env ''example.'' rdatatype_A [''203.0.113.5'', ''192.0.2.1'']
     (Bound (Some \<lparr>answer = [], authority = ns_authority, additional = []\<rparr>))
     [(''example.'', rdatatype_A, ''198.41.0.4''), (''ns1.example.'', rdatatype_A, ''198.41.0.4'')]"
proof -
  let ?r = "\<lparr>answer = [], authority = ns_authority, additional = []\<rparr>"
  have u: "udp ns_env [] (''example.'', rdatatype_A, ''198.41.0.4'') = Returns (Some ?r)"
    by (simp add: ns_env_def static_env_def refers_def)
  have a: "answer ?r = []" by simp
  have n: "\<forall>rs \<in> set (additional ?r). items rs \<noteq> [] \<and> rdata_rdtype (hd (items rs)) \<noteq> rdatatype_A"
    by simp
  have ra: "resolve_authorities (lookup 1 ns_env) ns_env [''203.0.113.5'']
              [(''example.'', rdatatype_A, ''198.41.0.4'')] ns_authority =
            Some (Inr [''203.0.113.5'', ''192.0.2.1''],
              [(''example.'', rdatatype_A, ''198.41.0.4''), (''ns1.example.'', rdatatype_A, ''198.41.0.4'')])"
    by (simp add: ns_authority_def first_def ns_env_def static_env_def example_from_text_def
        answers_def ROOT_SERVERS_def combine_def)
  from authority_referral_appends [OF u a n, of 2 "lookup 1 ns_env" "[''203.0.113.5'']" Unbound]
  have "lookup_loop (Suc 2) (lookup 1 ns_env) ns_env ''example.'' rdatatype_A
          [''198.41.0.4'', ''203.0.113.5''] Unbound [] =
        (case resolve_authorities (lookup 1 ns_env) ns_env [''203.0.113.5'']
                ([] @ [(''example.'', rdatatype_A, ''198.41.0.4'')]) (authority ?r) of
           None \<Rightarrow> None
         | Some (Inl e, tr') \<Rightarrow> Some (Inl e, tr')
         | Some (Inr servers', tr') \<Rightarrow>
             lookup_loop 2 (lookup 1 ns_env) ns_env ''example.'' rdatatype_A servers' (Bound (Some ?r)) tr')"
    by (rule conjunct1)
  then show ?thesis
    by (simp only: ra append_Nil message.simps numeral_3_eq_3 numeral_2_eq_2 option.case sum.case prod.case)
qed

text \<open>
  An authority set with two nameservers: the first is looked up and the second is not,
  and of the two addresses of the first only one becomes a candidate.
\<close>

theorem second_nameserver_not_resolved:
  "authority (\<lparr>answer = [], authority = ns_authority, additional = []\<rparr>) =
     [\<lparr>name = ''example.'', rdtype = rdatatype_NS,
       items = [NS_rdata ''ns1.example.'', NS_rdata ''ns2.example.'']\<rparr>] \<and>
   lookup 1 ns_env ''ns1.example.'' rdatatype_A [] =
     Some (Inr (Some \<lparr>answer = [\<lparr>name = ''ns1.example.'', rdtype = rdatatype_A,
                                   items = [A_rdata ''192.0.2.1'', A_rdata ''192.0.2.9'']\<rparr>],
                       authority = [], additional = []\<rparr>),
           [(''ns1.example.'', rdatatype_A, ''198.41.0.4'')]) \<and>
   resolve_authorities (lookup 1 ns_env) ns_env [''203.0.113.5''] [] ns_authority =
     Some (Inr [''203.0.113.5'', ''192.0.2.1''], [(''ns1.example.'', rdatatype_A, ''198.41.0.4'')]) \<and>
   lookup 3 ns_env ''example.'' rdatatype_A [] =
     Some (Inr (Some \<lparr>answer = [\<lparr>name = ''example.'', rdtype = rdatatype_A,
                                   items = [A_rdata ''192.0.2.7'']\<rparr>],
                       authority = [], additional = []\<rparr>),
           [(''example.'', rdatatype_A, ''198.41.0.4''),
            (''ns1.example.'', rdatatype_A, ''198.41.0.4''),
            (''example.'', rdatatype_A, ''199.9.14.201'')])"
  by (simp add: ns_authority_def first_def ns_env_def static_env_def example_from_text_def
      answers_def refers_def ROOT_SERVERS_def combine_def numeral_3_eq_3)


subsection \<open>A query that fails\<close>

text \<open>
  A call that returns \<^verbatim>\<open>None\<close> is passed over and the next candidate is asked; a
  call that raises ends the loop.
\<close>

lemma lookup_loop_skips_None:
  "udp E tr (nm, qt, server) = Returns None \<Longrightarrow>
   lookup_loop (Suc k) rec E nm qt (server # rest) response tr =
     lookup_loop k rec E nm qt rest (Bound None) (tr @ [(nm, qt, server)])"
  by simp

lemma lookup_loop_raises:
  "udp E tr (nm, qt, server) = Raises e \<Longrightarrow>
   lookup_loop (Suc k) rec E nm qt (server # rest) response tr =
     Some (Inl e, tr @ [(nm, qt, server)])"
  by simp

text \<open>
  C3. \<^verbatim>\<open>dns.query.udp\<close> reports a timeout by raising. The call stands in no
  \<^verbatim>\<open>try\<close>, so the first root server that does not answer ends \<^verbatim>\<open>lookup\<close> and
  \<^verbatim>\<open>collect_results\<close> with the exception, after one query; the second root server
  is never asked.
\<close>

theorem timeout_is_raised:
  "lookup 14 timeout_env ''example.com.'' rdatatype_A [] =
     Some (Inl Timeout, [(''example.com.'', rdatatype_A, ''198.41.0.4'')]) \<and>
   collect_results 14 timeout_env ''example.com'' [] =
     Some (Inl Timeout, [(''example.com.'', rdatatype_CNAME, ''198.41.0.4'')])"
  by (simp add: timeout_env_def static_env_def ROOT_SERVERS_def collect_results_def
      lookup_answer_def example_from_text_def eval_nat_numeral)

subsection \<open>Aliases\<close>


subsection \<open>collect\_results\<close>

text \<open>
  C8. A text that name construction refuses ends \<^verbatim>\<open>collect_results\<close> with that
  error, whatever the fuel, and the list of queries sent is the one it started with.
\<close>

theorem malformed_name_fails_first:
  "from_text E nm = Inl e \<Longrightarrow> collect_results n E nm tr = Some (Inl e, tr)"
  by (simp add: collect_results_def)

theorem malformed_name_fails_first_witness:
  "from_text address_env ''www..example'' = Inl (BadName ''www..example'') \<and>
   collect_results 5 address_env ''www..example'' [] = Some (Inl (BadName ''www..example''), [])"
proof -
  have f: "from_text address_env ''www..example'' = Inl (BadName ''www..example'')"
    by (simp add: address_env_def static_env_def example_from_text_def)
  from malformed_name_fails_first [OF f, of 5 "[]"] f show ?thesis by simp
qed

text \<open>
  C9. Whenever \<^verbatim>\<open>collect_results\<close> returns, what it returns has the keys CNAME, A,
  AAAA and MX, in this order and no other, each with a list of entries.
\<close>

theorem collect_results_keys:
  "collect_results n E nm tr = Some (Inr d, tr') \<Longrightarrow> map fst d = [''CNAME'', ''A'', ''AAAA'', ''MX'']"
  by (auto simp: collect_results_def split: sum.splits option.splits prod.splits)

theorem collect_results_keys_witness:
  "map_option fst (collect_results 14 nodata_env ''example'' []) =
     Some (Inr [(''CNAME'', []), (''A'', []), (''AAAA'', []), (''MX'', [])])"
proof -
  have c: "map_option fst (collect_results 14 nodata_env ''example'' []) =
     Some (Inr [(''CNAME'', []), (''A'', []), (''AAAA'', []), (''MX'', [])])"
    by code_simp
  then obtain d tr' where r: "collect_results 14 nodata_env ''example'' [] = Some (Inr d, tr')"
    by (cases "collect_results 14 nodata_env ''example'' []") auto
  from collect_results_keys [OF r] c show ?thesis by simp
qed

text \<open>
  The address lists and the mail-exchange list are the same whether or not the records
  of other types are taken out of the answer first.
\<close>

lemma address_entries_typed:
  "address_entries code rss =
     address_entries code
       (map (\<lambda>rs. rs\<lparr>items := filter (\<lambda>d. rdata_rdtype d = code) (items rs)\<rparr>) rss)"
  by (simp add: address_entries_def comp_def)

lemma mx_records_typed:
  "mx_records mx_name acc (filter (\<lambda>d. rdata_rdtype d = rdatatype_MX) ds) = mx_records mx_name acc ds"
  by (induction ds arbitrary: acc) (simp_all split: sum.splits)

text \<open>
  C6. The lists for A, AAAA and MX keep the records of their type code; the list for
  CNAME takes every record of the answer. For \<^verbatim>\<open>www.old.example.\<close> the answer to the
  alias query holds the DNAME record (type 39) of \<^verbatim>\<open>old.example.\<close> before the alias
  record, and the DNAME record is the first entry of the CNAME list.
\<close>

theorem cname_list_not_filtered:
  "map_option fst (collect_results 15 dname_env ''www.old.example'' []) =
     Some (Inr
       [(''CNAME'',
         [[(''name'', PyRdata (Other_rdata 39 ''new.example.'')),
           (''alias'', PyStr ''www.old.example'')],
          [(''name'', PyRdata (CNAME_rdata ''www.new.example.'')),
           (''alias'', PyStr ''www.old.example'')]]),
        (''A'', []), (''AAAA'', []), (''MX'', [])])"
  by code_simp

end
